theory Spec2Isabelle
  imports Main "HOL-Library.Word"
begin

unbundle bit_operations_syntax

section \<open>Data model (srm_control.h)\<close>

text \<open>
  The library targets the Arduino: \<open>char\<close> and \<open>unsigned char\<close> are 8 bits wide,
  \<open>unsigned int\<close> is 16 bits wide and \<open>unsigned long\<close> (the type of \<open>micros()\<close>) is
  32 bits wide. Pin identifiers are only stored and handed on, so a \<open>char\<close> pin is an
  8-bit word whatever its signedness.
\<close>

datatype SequenceType = SEQUENCE_SIMPLE | SEQUENCE_OVERLAP

record Sequence =
  pin1 :: "8 word"
  pin2 :: "8 word"
  pin3 :: "8 word"
  phase1 :: "8 word"
  phase2 :: "8 word"
  phase3 :: "8 word"
  limit :: "8 word"
  steps :: "8 word"
  position :: "8 word"
  running :: bool
  speed_control :: bool
  time_step :: "32 word"
  next_update :: "32 word"

subsection \<open>The collaborators: pins and clock\<close>

text \<open>
  \<open>pinMode\<close> and \<open>digitalWrite\<close> belong to the Arduino core. Every call is recorded,
  in program order, as one event of a trace. \<open>micros()\<close> is the other collaborator:
  each function that may read the clock takes the reading as its argument \<open>now\<close>.
\<close>

datatype level = LOW | HIGH

datatype pin_mode = INPUT | OUTPUT

datatype io = PinMode "8 word" pin_mode | DigitalWrite "8 word" level

text \<open>
  The only way the arithmetic of the library can go wrong: an integer division whose
  divisor is zero, which C leaves undefined. No function of the library returns an
  error code or checks an argument.
\<close>

datatype error = DivisionByZero

section \<open>The operations (srm_control.c)\<close>

text \<open>The zeroed structure handed out by \<open>calloc(1, sizeof(Sequence))\<close>.\<close>

definition calloc_Sequence :: Sequence where
  "calloc_Sequence =
     \<lparr>pin1 = 0, pin2 = 0, pin3 = 0, phase1 = 0, phase2 = 0, phase3 = 0,
      limit = 0, steps = 0, position = 0, running = False, speed_control = False,
      time_step = 0, next_update = 0\<rparr>"

text \<open>
  \<open>time_step = (60000000 / speed) / steps; next_update = micros() + time_step\<close>.
  All operands of the two divisions are non-negative and at most 60000000, so the
  quotient is the same whether the platform divides as \<open>long\<close> or as \<open>unsigned\<close>.
\<close>

definition motor_set_speed :: "32 word \<Rightarrow> Sequence \<Rightarrow> 16 word \<Rightarrow> error + Sequence" where
  "motor_set_speed now sequence speed =
     (if speed = 0 then Inl DivisionByZero
      else if steps sequence = 0 then Inl DivisionByZero
      else
        let ts = (word_of_nat ((60000000 div unat speed) div unat (steps sequence)) :: 32 word)
        in Inr (sequence\<lparr>time_step := ts, next_update := now + ts\<rparr>))"

definition motor_initialize ::
  "8 word \<Rightarrow> 8 word \<Rightarrow> 8 word \<Rightarrow> SequenceType \<Rightarrow> 32 word \<Rightarrow> error + Sequence \<times> io list" where
  "motor_initialize p1 p2 p3 type now =
     (let r0 = calloc_Sequence;
          r1 = (case type of
                  SEQUENCE_OVERLAP \<Rightarrow> r0\<lparr>phase1 := 49, phase2 := 28, phase3 := 7, steps := 6\<rparr>
                | _ \<Rightarrow> r0\<lparr>phase1 := 4, phase2 := 2, phase3 := 1, steps := 3\<rparr>);
          r2 = r1\<lparr>pin1 := p1, pin2 := p2, pin3 := p3\<rparr>;
          r3 = r2\<lparr>limit := push_bit (unat (steps r2)) 1, position := 1,
                  running := True, speed_control := False\<rparr>
      in case motor_set_speed now r3 500 of
           Inl e \<Rightarrow> Inl e
         | Inr r4 \<Rightarrow> Inr (r4, [PinMode p1 OUTPUT, PinMode p2 OUTPUT, PinMode p2 OUTPUT]))"

definition motor_set_speed_control :: "Sequence \<Rightarrow> bool \<Rightarrow> Sequence" where
  "motor_set_speed_control sequence status = sequence\<lparr>speed_control := status\<rparr>"

text \<open>The clock is read only when speed control is on.\<close>

definition motor_should_update :: "32 word \<Rightarrow> Sequence \<Rightarrow> bool \<times> Sequence" where
  "motor_should_update now sequence =
     (if speed_control sequence then
        let result = (now \<ge> next_update sequence)
        in if result
           then (result, sequence\<lparr>next_update := next_update sequence + time_step sequence\<rparr>)
           else (result, sequence)
      else (True, sequence))"

definition motor_apply :: "Sequence \<Rightarrow> io list" where
  "motor_apply sequence =
     (if \<not> running sequence then []
      else
        [DigitalWrite (pin1 sequence) (if phase1 sequence AND position sequence \<noteq> 0 then HIGH else LOW),
         DigitalWrite (pin2 sequence) (if phase2 sequence AND position sequence \<noteq> 0 then HIGH else LOW),
         DigitalWrite (pin3 sequence) (if phase3 sequence AND position sequence \<noteq> 0 then HIGH else LOW)])"

definition motor_step :: "32 word \<Rightarrow> Sequence \<Rightarrow> bool \<times> Sequence \<times> io list" where
  "motor_step now sequence =
     (case motor_should_update now sequence of
        (False, s1) \<Rightarrow> (False, s1, [])
      | (True, s1) \<Rightarrow>
          let s2 = s1\<lparr>position := push_bit 1 (position s1)\<rparr>;
              s3 = (if position s2 = limit s2 then s2\<lparr>position := 1\<rparr> else s2)
          in (True, s3, motor_apply s3))"

definition motor_step_backward :: "32 word \<Rightarrow> Sequence \<Rightarrow> bool \<times> Sequence \<times> io list" where
  "motor_step_backward now sequence =
     (case motor_should_update now sequence of
        (False, s1) \<Rightarrow> (False, s1, [])
      | (True, s1) \<Rightarrow>
          let s2 = s1\<lparr>position := drop_bit 1 (position s1)\<rparr>;
              s3 = (if position s2 < 1 then s2\<lparr>position := drop_bit 1 (limit s2)\<rparr> else s2)
          in (True, s3, motor_apply s3))"

definition motor_release :: "Sequence \<Rightarrow> Sequence \<times> io list" where
  "motor_release sequence =
     (let s1 = sequence\<lparr>running := False\<rparr>
      in (s1, [DigitalWrite (pin1 s1) LOW, DigitalWrite (pin2 s1) LOW, DigitalWrite (pin3 s1) LOW]))"

definition motor_resume :: "Sequence \<Rightarrow> Sequence" where
  "motor_resume sequence = sequence\<lparr>running := True\<rparr>"

subsection \<open>Sequences of calls\<close>

text \<open>
  A client owns one sequence and calls the exported functions on it one after the
  other. A call carries its arguments and, where the function reads the clock, the
  reading. \<open>exec\<close> performs one call: it gives the value returned (\<open>None\<close> for a
  \<open>void\<close> function), the sequence afterwards and the pin events of the call.
  \<open>run\<close> performs a list of calls, stopping at the first fault.
\<close>

datatype call =
    Step "32 word"
  | StepBackward "32 word"
  | SetSpeedControl bool
  | SetSpeed "32 word" "16 word"
  | Apply
  | Release
  | Resume

fun exec :: "call \<Rightarrow> Sequence \<Rightarrow> error + bool option \<times> Sequence \<times> io list" where
  "exec (Step now) s = (case motor_step now s of (b, s', tr) \<Rightarrow> Inr (Some b, s', tr))"
| "exec (StepBackward now) s =
     (case motor_step_backward now s of (b, s', tr) \<Rightarrow> Inr (Some b, s', tr))"
| "exec (SetSpeedControl status) s = Inr (None, motor_set_speed_control s status, [])"
| "exec (SetSpeed now speed) s =
     (case motor_set_speed now s speed of Inl e \<Rightarrow> Inl e | Inr s' \<Rightarrow> Inr (None, s', []))"
| "exec Apply s = Inr (None, s, motor_apply s)"
| "exec Release s = (case motor_release s of (s', tr) \<Rightarrow> Inr (None, s', tr))"
| "exec Resume s = Inr (None, motor_resume s, [])"

fun run :: "call list \<Rightarrow> Sequence \<Rightarrow> error + bool option list \<times> Sequence \<times> io list" where
  "run [] s = Inr ([], s, [])"
| "run (c # cs) s =
     (case exec c s of
        Inl e \<Rightarrow> Inl e
      | Inr (r, s1, tr1) \<Rightarrow>
          (case run cs s1 of
             Inl e \<Rightarrow> Inl e
           | Inr (rs, s2, tr2) \<Rightarrow> Inr (r # rs, s2, tr1 @ tr2)))"

fun is_step :: "call \<Rightarrow> bool" where
  "is_step (Step now) = True"
| "is_step (StepBackward now) = True"
| "is_step c = False"

section \<open>Invariants of an initialised sequence\<close>

text \<open>
  \<open>pattern_ok\<close>: the phase masks, the step count and the limit are those of one of the
  two built-in patterns. \<open>valid_position\<close>: the position is one of the bits
  \<open>1 << 0\<close>, ..., \<open>1 << (steps - 1)\<close>.
\<close>

definition pattern_ok :: "Sequence \<Rightarrow> bool" where
  "pattern_ok s \<longleftrightarrow>
     (phase1 s = 4 \<and> phase2 s = 2 \<and> phase3 s = 1 \<and> steps s = 3 \<and> limit s = 8) \<or>
     (phase1 s = 49 \<and> phase2 s = 28 \<and> phase3 s = 7 \<and> steps s = 6 \<and> limit s = 64)"

definition valid_position :: "Sequence \<Rightarrow> bool" where
  "valid_position s \<longleftrightarrow> position s \<in> set (map (\<lambda>k. push_bit k 1) [0..<unat (steps s)])"

definition seq_ok :: "Sequence \<Rightarrow> bool" where
  "seq_ok s \<longleftrightarrow> pattern_ok s \<and> valid_position s"

text \<open>
  Two sequences used as concrete inputs: what \<open>motor_initialize(2, 3, 4, type)\<close> builds
  when the clock reads 0.
\<close>

definition example_simple :: Sequence where
  "example_simple =
     \<lparr>pin1 = 2, pin2 = 3, pin3 = 4, phase1 = 4, phase2 = 2, phase3 = 1,
      limit = 8, steps = 3, position = 1, running = True, speed_control = False,
      time_step = 40000, next_update = 40000\<rparr>"

definition example_overlap :: Sequence where
  "example_overlap =
     \<lparr>pin1 = 2, pin2 = 3, pin3 = 4, phase1 = 49, phase2 = 28, phase3 = 7,
      limit = 64, steps = 6, position = 1, running = True, speed_control = False,
      time_step = 20000, next_update = 20000\<rparr>"

section \<open>Basic facts\<close>

lemmas motor_defs =
  motor_step_def motor_step_backward_def motor_should_update_def motor_apply_def
  motor_release_def motor_resume_def motor_set_speed_control_def motor_set_speed_def Let_def

lemma motor_initialize_simple:
  "motor_initialize p1 p2 p3 SEQUENCE_SIMPLE now =
     Inr (\<lparr>pin1 = p1, pin2 = p2, pin3 = p3, phase1 = 4, phase2 = 2, phase3 = 1,
           limit = 8, steps = 3, position = 1, running = True, speed_control = False,
           time_step = 40000, next_update = now + 40000\<rparr>,
          [PinMode p1 OUTPUT, PinMode p2 OUTPUT, PinMode p2 OUTPUT])"
  by (simp add: motor_initialize_def motor_set_speed_def calloc_Sequence_def)

lemma motor_initialize_overlap:
  "motor_initialize p1 p2 p3 SEQUENCE_OVERLAP now =
     Inr (\<lparr>pin1 = p1, pin2 = p2, pin3 = p3, phase1 = 49, phase2 = 28, phase3 = 7,
           limit = 64, steps = 6, position = 1, running = True, speed_control = False,
           time_step = 20000, next_update = now + 20000\<rparr>,
          [PinMode p1 OUTPUT, PinMode p2 OUTPUT, PinMode p2 OUTPUT])"
  by (simp add: motor_initialize_def motor_set_speed_def calloc_Sequence_def)

lemma initialize_example_simple:
  "motor_initialize 2 3 4 SEQUENCE_SIMPLE 0 =
     Inr (example_simple, [PinMode 2 OUTPUT, PinMode 3 OUTPUT, PinMode 3 OUTPUT])"
  by (simp add: motor_initialize_def motor_set_speed_def calloc_Sequence_def example_simple_def)

lemma initialize_example_overlap:
  "motor_initialize 2 3 4 SEQUENCE_OVERLAP 0 =
     Inr (example_overlap, [PinMode 2 OUTPUT, PinMode 3 OUTPUT, PinMode 3 OUTPUT])"
  by (simp add: motor_initialize_def motor_set_speed_def calloc_Sequence_def example_overlap_def)

lemma valid_position_3: "steps s = 3 \<Longrightarrow> valid_position s \<longleftrightarrow> position s \<in> {1, 2, 4}"
proof -
  have u: "[0..<3] = [0, 1, 2]" by (simp add: upt_rec)
  assume "steps s = 3"
  then show ?thesis by (auto simp: valid_position_def u)
qed

lemma valid_position_6:
  "steps s = 6 \<Longrightarrow> valid_position s \<longleftrightarrow> position s \<in> {1, 2, 4, 8, 16, 32}"
proof -
  have u: "[0..<6] = [0, 1, 2, 3, 4, 5]" by (simp add: upt_rec)
  assume "steps s = 6"
  then show ?thesis by (auto simp: valid_position_def u)
qed

lemma seq_ok_cases:
  "seq_ok s \<longleftrightarrow>
     (phase1 s = 4 \<and> phase2 s = 2 \<and> phase3 s = 1 \<and> steps s = 3 \<and> limit s = 8 \<and>
        position s \<in> {1, 2, 4}) \<or>
     (phase1 s = 49 \<and> phase2 s = 28 \<and> phase3 s = 7 \<and> steps s = 6 \<and> limit s = 64 \<and>
        position s \<in> {1, 2, 4, 8, 16, 32})"
  unfolding seq_ok_def pattern_ok_def
  using valid_position_3 [of s] valid_position_6 [of s] by blast

lemma motor_initialize_Inr:
  "\<exists>s. motor_initialize p1 p2 p3 t now = Inr (s, [PinMode p1 OUTPUT, PinMode p2 OUTPUT, PinMode p2 OUTPUT])"
  by (cases t) (simp_all add: motor_initialize_def motor_set_speed_def calloc_Sequence_def Let_def)

lemma motor_initialize_seq_ok:
  "motor_initialize p1 p2 p3 t now = Inr (s, tr) \<Longrightarrow> seq_ok s"
  by (cases t) (auto simp: motor_initialize_def motor_set_speed_def calloc_Sequence_def Let_def seq_ok_cases)


lemma motor_step_effect:
  assumes "motor_step now s = (b, s', tr)"
  shows "pin1 s' = pin1 s" "pin2 s' = pin2 s" "pin3 s' = pin3 s"
    "phase1 s' = phase1 s" "phase2 s' = phase2 s" "phase3 s' = phase3 s"
    "limit s' = limit s" "steps s' = steps s"
    "running s' = running s" "speed_control s' = speed_control s" "time_step s' = time_step s"
    "position s' =
       (if b then (if push_bit 1 (position s) = limit s then 1 else push_bit 1 (position s))
        else position s)"
    "tr = (if b then motor_apply s' else [])"
  using assms
  by (auto simp: motor_step_def motor_should_update_def Let_def split: if_splits)

lemma motor_step_backward_effect:
  assumes "motor_step_backward now s = (b, s', tr)"
  shows "pin1 s' = pin1 s" "pin2 s' = pin2 s" "pin3 s' = pin3 s"
    "phase1 s' = phase1 s" "phase2 s' = phase2 s" "phase3 s' = phase3 s"
    "limit s' = limit s" "steps s' = steps s"
    "running s' = running s" "speed_control s' = speed_control s" "time_step s' = time_step s"
    "position s' =
       (if b then (if drop_bit 1 (position s) < 1 then drop_bit 1 (limit s) else drop_bit 1 (position s))
        else position s)"
    "tr = (if b then motor_apply s' else [])"
  using assms
  by (auto simp: motor_step_backward_def motor_should_update_def Let_def split: if_splits)


lemma forward_simple:
  "p \<in> {1, 2, 4 :: 8 word} \<Longrightarrow> (if push_bit 1 p = 8 then 1 else push_bit 1 p) \<in> {1, 2, 4 :: 8 word}"
  by auto

lemma forward_overlap:
  "p \<in> {1, 2, 4, 8, 16, 32 :: 8 word} \<Longrightarrow>
   (if push_bit 1 p = 64 then 1 else push_bit 1 p) \<in> {1, 2, 4, 8, 16, 32 :: 8 word}"
  by auto

lemma backward_simple:
  "p \<in> {1, 2, 4 :: 8 word} \<Longrightarrow>
   (if drop_bit 1 p < 1 then drop_bit 1 8 else drop_bit 1 p) \<in> {1, 2, 4 :: 8 word}"
  by auto

lemma backward_overlap:
  "p \<in> {1, 2, 4, 8, 16, 32 :: 8 word} \<Longrightarrow>
   (if drop_bit 1 p < 1 then drop_bit 1 64 else drop_bit 1 p) \<in> {1, 2, 4, 8, 16, 32 :: 8 word}"
  by auto

lemma motor_step_seq_ok:
  assumes "seq_ok s" and "motor_step now s = (b, s', tr)"
  shows "seq_ok s'"
proof -
  note e = motor_step_effect [OF assms(2)]
  from assms(1) consider
      (simple) "phase1 s = 4" "phase2 s = 2" "phase3 s = 1" "steps s = 3" "limit s = 8"
        "position s \<in> {1, 2, 4}"
    | (overlap) "phase1 s = 49" "phase2 s = 28" "phase3 s = 7" "steps s = 6" "limit s = 64"
        "position s \<in> {1, 2, 4, 8, 16, 32}"
    unfolding seq_ok_cases by blast
  then show ?thesis
  proof cases
    case simple
    have "position s' \<in> {1, 2, 4}"
      using forward_simple [OF simple(6)] simple(5,6) e(12) by (cases b) auto
    with simple e(4-8) show ?thesis unfolding seq_ok_cases by simp
  next
    case overlap
    have "position s' \<in> {1, 2, 4, 8, 16, 32}"
      using forward_overlap [OF overlap(6)] overlap(5,6) e(12) by (cases b) auto
    with overlap e(4-8) show ?thesis unfolding seq_ok_cases by simp
  qed
qed

lemma motor_step_backward_seq_ok:
  assumes "seq_ok s" and "motor_step_backward now s = (b, s', tr)"
  shows "seq_ok s'"
proof -
  note e = motor_step_backward_effect [OF assms(2)]
  from assms(1) consider
      (simple) "phase1 s = 4" "phase2 s = 2" "phase3 s = 1" "steps s = 3" "limit s = 8"
        "position s \<in> {1, 2, 4}"
    | (overlap) "phase1 s = 49" "phase2 s = 28" "phase3 s = 7" "steps s = 6" "limit s = 64"
        "position s \<in> {1, 2, 4, 8, 16, 32}"
    unfolding seq_ok_cases by blast
  then show ?thesis
  proof cases
    case simple
    have "position s' \<in> {1, 2, 4}"
      using backward_simple [OF simple(6)] simple(5,6) e(12) by (cases b) auto
    with simple e(4-8) show ?thesis unfolding seq_ok_cases by simp
  next
    case overlap
    have "position s' \<in> {1, 2, 4, 8, 16, 32}"
      using backward_overlap [OF overlap(6)] overlap(5,6) e(12) by (cases b) auto
    with overlap e(4-8) show ?thesis unfolding seq_ok_cases by simp
  qed
qed

lemma motor_set_speed_effect:
  assumes "motor_set_speed now s speed = Inr s'"
  shows "pin1 s' = pin1 s" "pin2 s' = pin2 s" "pin3 s' = pin3 s"
    "phase1 s' = phase1 s" "phase2 s' = phase2 s" "phase3 s' = phase3 s"
    "limit s' = limit s" "steps s' = steps s" "position s' = position s"
    "running s' = running s" "speed_control s' = speed_control s"
  using assms by (auto simp: motor_set_speed_def Let_def split: if_splits)

lemma seq_ok_cong:
  assumes "phase1 s' = phase1 s" "phase2 s' = phase2 s" "phase3 s' = phase3 s"
    "limit s' = limit s" "steps s' = steps s" "position s' = position s"
  shows "seq_ok s' = seq_ok s"
  by (simp add: seq_ok_def pattern_ok_def valid_position_def assms)

lemma motor_set_speed_seq_ok:
  "seq_ok s \<Longrightarrow> motor_set_speed now s speed = Inr s' \<Longrightarrow> seq_ok s'"
  using seq_ok_cong [of s' s] by (simp add: motor_set_speed_effect)

lemma exec_seq_ok:
  assumes "seq_ok s" and "exec c s = Inr (r, s', tr)"
  shows "seq_ok s'"
proof (cases c)
  case (Step now)
  with assms(2) have "motor_step now s = (the r, s', tr)"
    by (auto split: prod.splits)
  with assms(1) show ?thesis by (rule motor_step_seq_ok)
next
  case (StepBackward now)
  with assms(2) have "motor_step_backward now s = (the r, s', tr)"
    by (auto split: prod.splits)
  with assms(1) show ?thesis by (rule motor_step_backward_seq_ok)
next
  case (SetSpeedControl status)
  with assms show ?thesis
    using seq_ok_cong [of s' s] by (auto simp: motor_set_speed_control_def)
next
  case (SetSpeed now speed)
  with assms(2) have "motor_set_speed now s speed = Inr s'"
    by (auto split: sum.splits)
  with assms(1) show ?thesis by (rule motor_set_speed_seq_ok)
next
  case Apply
  with assms show ?thesis by simp
next
  case Release
  with assms show ?thesis
    using seq_ok_cong [of s' s] by (auto simp: motor_release_def Let_def)
next
  case Resume
  with assms show ?thesis
    using seq_ok_cong [of s' s] by (auto simp: motor_resume_def)
qed

lemma run_seq_ok:
  "seq_ok s \<Longrightarrow> run cs s = Inr (rs, s', tr) \<Longrightarrow> seq_ok s'"
proof (induction cs arbitrary: s rs tr)
  case Nil
  then show ?case by simp
next
  case (Cons c cs)
  from Cons.prems(2) obtain r s1 tr1 rs' tr2
    where c: "exec c s = Inr (r, s1, tr1)" and cs: "run cs s1 = Inr (rs', s', tr2)"
    by (auto split: sum.splits prod.splits)
  from Cons.prems(1) c have "seq_ok s1" by (rule exec_seq_ok)
  then show ?case using cs by (rule Cons.IH)
qed

lemma one_bit: "n < 8 \<Longrightarrow> \<exists>!k. bit (2 ^ n :: 8 word) k"
  by (auto simp: bit_exp_iff)

lemma seq_ok_position:
  assumes "seq_ok s"
  shows "(\<exists>k<unat (steps s). position s = 2 ^ k) \<and> (\<exists>!k. bit (position s) k) \<and>
         position s \<noteq> 0 \<and> 1 \<le> position s \<and> position s < limit s \<and>
         limit s = 2 ^ unat (steps s)"
proof -
  from assms have "\<exists>k<unat (steps s). position s = push_bit k 1"
    by (auto simp: seq_ok_def valid_position_def)
  then obtain k where k: "k < unat (steps s)" "position s = 2 ^ k"
    by (auto simp: push_bit_eq_mult)
  from assms have st: "steps s = 3 \<and> limit s = 8 \<or> steps s = 6 \<and> limit s = 64"
    by (auto simp: seq_ok_def pattern_ok_def)
  with k(1) have k8: "k < 8" by auto
  have uniq: "\<exists>!j. bit (position s) j"
    unfolding k(2) using k8 by (rule one_bit)
  have range: "position s \<noteq> 0 \<and> 1 \<le> position s \<and> position s < limit s"
    using assms unfolding seq_ok_cases by auto
  have lim: "limit s = 2 ^ unat (steps s)"
    using st by auto
  from k uniq range lim show ?thesis by blast
qed

section \<open>The position invariant\<close>

text \<open>
  C1. Take the sequence built by \<open>motor_initialize\<close>, with either pattern, and perform
  any finite list of calls on it (forward and backward steps, and every other exported
  function as well). Then \<open>position\<close> is a power of two \<open>2 ^ k\<close> with \<open>k < steps\<close>, it
  has exactly one bit set, it is never 0, and \<open>1 \<le> position < limit\<close>, where
  \<open>limit = 2 ^ steps\<close>.
\<close>

theorem position_invariant:
  assumes "motor_initialize p1 p2 p3 t now = Inr (s0, tr0)"
    and "run cs s0 = Inr (rs, s, tr)"
  shows "(\<exists>k<unat (steps s). position s = 2 ^ k) \<and> (\<exists>!k. bit (position s) k) \<and>
         position s \<noteq> 0 \<and> 1 \<le> position s \<and> position s < limit s \<and>
         limit s = 2 ^ unat (steps s)"
proof -
  have "seq_ok s0"
    using assms(1) by (rule motor_initialize_seq_ok)
  then have "seq_ok s"
    using assms(2) by (rule run_seq_ok)
  then show ?thesis by (rule seq_ok_position)
qed

theorem position_invariant_witness:
  "motor_initialize 2 3 4 SEQUENCE_OVERLAP 0 =
     Inr (example_overlap, [PinMode 2 OUTPUT, PinMode 3 OUTPUT, PinMode 3 OUTPUT]) \<and>
   run [StepBackward 0, Step 0, Step 0] example_overlap =
     Inr ([Some True, Some True, Some True], example_overlap\<lparr>position := 2\<rparr>,
          [DigitalWrite 2 HIGH, DigitalWrite 3 LOW, DigitalWrite 4 LOW,
           DigitalWrite 2 HIGH, DigitalWrite 3 LOW, DigitalWrite 4 HIGH,
           DigitalWrite 2 LOW, DigitalWrite 3 LOW, DigitalWrite 4 HIGH]) \<and>
   (\<exists>k<6. (2 :: 8 word) = 2 ^ k) \<and> (\<exists>!k. bit (2 :: 8 word) k)"
proof -
  have r: "run [StepBackward 0, Step 0, Step 0] example_overlap =
     Inr ([Some True, Some True, Some True], example_overlap\<lparr>position := 2\<rparr>,
          [DigitalWrite 2 HIGH, DigitalWrite 3 LOW, DigitalWrite 4 LOW,
           DigitalWrite 2 HIGH, DigitalWrite 3 LOW, DigitalWrite 4 HIGH,
           DigitalWrite 2 LOW, DigitalWrite 3 LOW, DigitalWrite 4 HIGH])"
    by (simp add: motor_defs example_overlap_def)
  show ?thesis
    using position_invariant [OF initialize_example_overlap r] initialize_example_overlap r
    by (simp add: example_overlap_def)
qed

section \<open>Speed configuration\<close>

text \<open>
  C2 (as stated, refuted). \<open>motor_set_speed\<close> has no precondition check: called with
  \<open>speed = 0\<close> on an initialised sequence it goes straight to \<open>60000000 / speed\<close>,
  the division by zero that the claim says must not be performed.
\<close>

theorem motor_set_speed_zero_counterexample:
  "motor_set_speed 0 example_simple 0 = Inl DivisionByZero"
  by (simp add: motor_set_speed_def)

text \<open>
  C2 (amended). On every sequence reachable from \<open>motor_initialize\<close>, a call of
  \<open>motor_set_speed\<close> divides by zero exactly when \<open>speed = 0\<close>; there is no check
  in front of the division, and every \<open>speed > 0\<close> is accepted.
\<close>

theorem motor_set_speed_fault_iff:
  assumes "motor_initialize p1 p2 p3 t now0 = Inr (s0, tr0)"
    and "run cs s0 = Inr (rs, s, tr)"
  shows "(motor_set_speed now s speed = Inl DivisionByZero \<longleftrightarrow> speed = 0) \<and>
         (speed \<noteq> 0 \<longrightarrow> (\<exists>s'. motor_set_speed now s speed = Inr s'))"
proof -
  have "seq_ok s0"
    using assms(1) by (rule motor_initialize_seq_ok)
  then have "seq_ok s"
    using assms(2) by (rule run_seq_ok)
  then have "steps s \<noteq> 0"
    unfolding seq_ok_cases by auto
  then show ?thesis
    by (simp add: motor_set_speed_def Let_def)
qed

theorem motor_set_speed_fault_iff_witness:
  "motor_initialize 2 3 4 SEQUENCE_SIMPLE 0 =
     Inr (example_simple, [PinMode 2 OUTPUT, PinMode 3 OUTPUT, PinMode 3 OUTPUT]) \<and>
   run [] example_simple = Inr ([], example_simple, []) \<and>
   motor_set_speed 7 example_simple 0 = Inl DivisionByZero \<and>
   motor_set_speed 7 example_simple 1000 =
     Inr (example_simple\<lparr>time_step := 20000, next_update := 20007\<rparr>)"
proof -
  have r: "run [] example_simple = Inr ([], example_simple, [])"
    by simp
  have "motor_set_speed 7 example_simple 1000 =
     Inr (example_simple\<lparr>time_step := 20000, next_update := 20007\<rparr>)"
    using motor_set_speed_fault_iff [OF initialize_example_simple r, of 7 1000]
    by (simp add: motor_set_speed_def example_simple_def)
  moreover have "motor_set_speed 7 example_simple 0 = Inl DivisionByZero"
    using motor_set_speed_fault_iff [OF initialize_example_simple r, of 7 0]
    by simp
  ultimately show ?thesis
    using initialize_example_simple r by simp
qed

text \<open>
  C7. For every \<open>speed > 0\<close> (and a sequence whose \<open>steps\<close> is not 0, as after
  \<open>motor_initialize\<close>) \<open>motor_set_speed\<close> succeeds, the new \<open>time_step\<close> is exactly
  \<open>(60000000 div speed) div steps\<close> with nothing lost in the 32-bit field, the new
  \<open>next_update\<close> is the clock reading plus that \<open>time_step\<close>, and no other field
  changes. With \<open>speed = 500\<close> and \<open>steps = 3\<close> the \<open>time_step\<close> is 40000.
\<close>

theorem motor_set_speed_time_step:
  assumes "0 < speed" and "0 < steps s"
  shows "\<exists>s'. motor_set_speed now s speed = Inr s' \<and>
           unat (time_step s') = (60000000 div unat speed) div unat (steps s) \<and>
           next_update s' = now + time_step s' \<and>
           s' = s\<lparr>time_step := time_step s', next_update := next_update s'\<rparr> \<and>
           (speed = 500 \<and> steps s = 3 \<longrightarrow> time_step s' = 40000)"
proof -
  let ?q = "(60000000 div unat speed) div unat (steps s)"
  have "?q \<le> 60000000 div unat speed"
    by (rule div_le_dividend)
  also have "\<dots> \<le> 60000000"
    by (rule div_le_dividend)
  finally have "?q < 2 ^ 32" by simp
  then have u: "unat (word_of_nat ?q :: 32 word) = ?q"
    by (simp add: unat_of_nat)
  from assms have nz: "speed \<noteq> 0" "steps s \<noteq> 0"
    by (auto simp: word_gt_0)
  have c: "speed = 500 \<and> steps s = 3 \<longrightarrow> (word_of_nat ?q :: 32 word) = 40000"
    by auto
  show ?thesis
    using nz u c by (simp add: motor_set_speed_def Let_def)
qed

theorem motor_set_speed_time_step_witness:
  "(0 :: 16 word) < 500 \<and> 0 < steps example_simple \<and>
   motor_set_speed 123 example_simple 500 =
     Inr (example_simple\<lparr>time_step := 40000, next_update := 40123\<rparr>)"
  using motor_set_speed_time_step [of 500 example_simple 123]
  by (auto simp: example_simple_def)

section \<open>Pin configuration\<close>

text \<open>
  C3 (the code departs from the claim). \<open>motor_initialize(2, 3, 4, SEQUENCE_SIMPLE)\<close>
  calls \<open>pinMode\<close> on pin 2 once and on pin 3 twice; pin 4, the third pin, is never
  configured as an output.
\<close>

theorem motor_initialize_pin_modes:
  "motor_initialize 2 3 4 SEQUENCE_SIMPLE 0 =
     Inr (example_simple, [PinMode 2 OUTPUT, PinMode 3 OUTPUT, PinMode 3 OUTPUT]) \<and>
   count_list [PinMode 2 OUTPUT, PinMode 3 OUTPUT, PinMode 3 OUTPUT] (PinMode 4 OUTPUT) = 0 \<and>
   count_list [PinMode 2 OUTPUT, PinMode 3 OUTPUT, PinMode 3 OUTPUT] (PinMode 3 OUTPUT) = 2"
  by (simp add: motor_initialize_def motor_set_speed_def calloc_Sequence_def example_simple_def)

section \<open>The pacing gate\<close>

text \<open>
  C6. With speed control off \<open>motor_should_update\<close> returns true and leaves the
  sequence alone. With speed control on it returns true exactly when the clock reading
  is at least \<open>next_update\<close>; on true, \<open>next_update\<close> grows by \<open>time_step\<close> (modulo
  \<open>2 ^ 32\<close>, the width of \<open>unsigned long\<close>) and nothing else changes, so it is not
  set to the clock reading plus \<open>time_step\<close>; on false nothing changes.
\<close>

theorem motor_should_update_gate:
  "(\<not> speed_control s \<longrightarrow> motor_should_update now s = (True, s)) \<and>
   (speed_control s \<longrightarrow>
      (fst (motor_should_update now s) \<longleftrightarrow> next_update s \<le> now) \<and>
      (fst (motor_should_update now s) \<longrightarrow>
         motor_should_update now s =
           (True, s\<lparr>next_update := next_update s + time_step s\<rparr>) \<and>
         unat (next_update (snd (motor_should_update now s))) =
           (unat (next_update s) + unat (time_step s)) mod 2 ^ 32) \<and>
      (\<not> fst (motor_should_update now s) \<longrightarrow> motor_should_update now s = (False, s)))"
  by (simp add: motor_should_update_def Let_def unat_word_ariths)

theorem motor_should_update_gate_witness:
  "speed_control (example_simple\<lparr>speed_control := True\<rparr>) \<and>
   \<not> speed_control example_simple \<and>
   motor_should_update 5 example_simple = (True, example_simple) \<and>
   motor_should_update 39999 (example_simple\<lparr>speed_control := True\<rparr>) =
     (False, example_simple\<lparr>speed_control := True\<rparr>) \<and>
   motor_should_update 50000 (example_simple\<lparr>speed_control := True\<rparr>) =
     (True, example_simple\<lparr>speed_control := True, next_update := 80000\<rparr>) \<and>
   (80000 :: 32 word) \<noteq> 50000 + 40000"
  using motor_should_update_gate [of example_simple 5]
    motor_should_update_gate [of "example_simple\<lparr>speed_control := True\<rparr>" 39999]
    motor_should_update_gate [of "example_simple\<lparr>speed_control := True\<rparr>" 50000]
  by (simp add: example_simple_def motor_should_update_def)

section \<open>Stepping forward and backward\<close>

lemma position_same: "position s = p \<Longrightarrow> s\<lparr>position := p\<rparr> = s"
  by (cases s) simp

lemma step_there_and_back:
  assumes "limit s = 8 \<and> position s \<in> {1, 2, 4} \<or>
           limit s = 64 \<and> position s \<in> {1, 2, 4, 8, 16, 32}"
    and "\<not> speed_control s"
  shows "\<exists>s1 tr1 tr2. motor_step n1 s = (True, s1, tr1) \<and>
           motor_step_backward n2 s1 = (True, s, tr2) \<and> position s1 \<noteq> position s"
  using assms
  by (auto simp: motor_step_def motor_step_backward_def motor_should_update_def Let_def
      position_same)

lemma step_back_and_there:
  assumes "limit s = 8 \<and> position s \<in> {1, 2, 4} \<or>
           limit s = 64 \<and> position s \<in> {1, 2, 4, 8, 16, 32}"
    and "\<not> speed_control s"
  shows "\<exists>s1 tr1 tr2. motor_step_backward n1 s = (True, s1, tr1) \<and>
           motor_step n2 s1 = (True, s, tr2) \<and> position s1 \<noteq> position s"
  using assms
  by (auto simp: motor_step_def motor_step_backward_def motor_should_update_def Let_def
      position_same)

text \<open>
  C5. On every sequence reachable from \<open>motor_initialize\<close> that has speed control off,
  \<open>motor_step\<close> followed by \<open>motor_step_backward\<close> returns true twice and gives back
  the position (indeed the whole sequence) it started from, and so does
  \<open>motor_step_backward\<close> followed by \<open>motor_step\<close>; the wrap points \<open>1\<close> and
  \<open>limit >> 1\<close> are among the reachable positions.
\<close>

theorem step_reversible:
  assumes "motor_initialize p1 p2 p3 t now0 = Inr (s0, tr0)"
    and "run cs s0 = Inr (rs, s, tr)"
    and "\<not> speed_control s"
  shows "(\<exists>s1 tr1 s2 tr2. motor_step n1 s = (True, s1, tr1) \<and>
            motor_step_backward n2 s1 = (True, s2, tr2) \<and>
            position s2 = position s \<and> s2 = s) \<and>
         (\<exists>s1 tr1 s2 tr2. motor_step_backward n1 s = (True, s1, tr1) \<and>
            motor_step n2 s1 = (True, s2, tr2) \<and>
            position s2 = position s \<and> s2 = s)"
proof -
  have "seq_ok s0"
    using assms(1) by (rule motor_initialize_seq_ok)
  then have "seq_ok s"
    using assms(2) by (rule run_seq_ok)
  then have c: "limit s = 8 \<and> position s \<in> {1, 2, 4} \<or>
           limit s = 64 \<and> position s \<in> {1, 2, 4, 8, 16, 32}"
    unfolding seq_ok_cases by blast
  from step_there_and_back [OF c assms(3), of n1 n2]
    step_back_and_there [OF c assms(3), of n1 n2]
  show ?thesis by blast
qed


theorem step_reversible_witness:
  "motor_initialize 2 3 4 SEQUENCE_SIMPLE 0 =
     Inr (example_simple, [PinMode 2 OUTPUT, PinMode 3 OUTPUT, PinMode 3 OUTPUT]) \<and>
   run [Step 0, Step 0] example_simple =
     Inr ([Some True, Some True], example_simple\<lparr>position := 4\<rparr>,
          [DigitalWrite 2 LOW, DigitalWrite 3 HIGH, DigitalWrite 4 LOW,
           DigitalWrite 2 HIGH, DigitalWrite 3 LOW, DigitalWrite 4 LOW]) \<and>
   \<not> speed_control (example_simple\<lparr>position := 4\<rparr>) \<and>
   motor_step 10 (example_simple\<lparr>position := 4\<rparr>) =
     (True, example_simple\<lparr>position := 1\<rparr>,
      [DigitalWrite 2 LOW, DigitalWrite 3 LOW, DigitalWrite 4 HIGH]) \<and>
   motor_step_backward 20 (example_simple\<lparr>position := 1\<rparr>) =
     (True, example_simple\<lparr>position := 4\<rparr>,
      [DigitalWrite 2 HIGH, DigitalWrite 3 LOW, DigitalWrite 4 LOW])"
proof -
  have r: "run [Step 0, Step 0] example_simple =
     Inr ([Some True, Some True], example_simple\<lparr>position := 4\<rparr>,
          [DigitalWrite 2 LOW, DigitalWrite 3 HIGH, DigitalWrite 4 LOW,
           DigitalWrite 2 HIGH, DigitalWrite 3 LOW, DigitalWrite 4 LOW])"
    by (simp add: motor_defs example_simple_def)
  have n: "\<not> speed_control (example_simple\<lparr>position := 4\<rparr>)"
    by (simp add: example_simple_def)
  show ?thesis
    using step_reversible [OF initialize_example_simple r n, of 10 20]
      initialize_example_simple r n
    by (simp add: motor_defs example_simple_def)
qed

section \<open>Applying the pattern to the pins\<close>

text \<open>
  C8. On a running sequence \<open>motor_apply\<close> writes pin1, pin2 and pin3 in this order,
  each HIGH if its phase mask ANDed with \<open>position\<close> is not zero and LOW otherwise.
  For the Simple pattern (masks 4, 2, 1), right after \<open>motor_initialize\<close> the position
  is 1 and the levels are (LOW, LOW, HIGH); one \<open>motor_step\<close> moves the position to 2
  and writes (LOW, HIGH, LOW).
\<close>

theorem motor_apply_phase_masks:
  "(running s \<longrightarrow>
      (\<exists>l1 l2 l3. motor_apply s =
          [DigitalWrite (pin1 s) l1, DigitalWrite (pin2 s) l2, DigitalWrite (pin3 s) l3] \<and>
        (l1 = HIGH \<longleftrightarrow> phase1 s AND position s \<noteq> 0) \<and> (l1 = LOW \<longleftrightarrow> phase1 s AND position s = 0) \<and>
        (l2 = HIGH \<longleftrightarrow> phase2 s AND position s \<noteq> 0) \<and> (l2 = LOW \<longleftrightarrow> phase2 s AND position s = 0) \<and>
        (l3 = HIGH \<longleftrightarrow> phase3 s AND position s \<noteq> 0) \<and> (l3 = LOW \<longleftrightarrow> phase3 s AND position s = 0))) \<and>
   (motor_initialize p1 p2 p3 SEQUENCE_SIMPLE now0 = Inr (s0, tr0) \<longrightarrow>
      running s0 \<and> phase1 s0 = 4 \<and> phase2 s0 = 2 \<and> phase3 s0 = 1 \<and> position s0 = 1 \<and>
      motor_apply s0 = [DigitalWrite p1 LOW, DigitalWrite p2 LOW, DigitalWrite p3 HIGH] \<and>
      (\<exists>s1. motor_step now s0 =
              (True, s1, [DigitalWrite p1 LOW, DigitalWrite p2 HIGH, DigitalWrite p3 LOW]) \<and>
         position s1 = 2 \<and> running s1 \<and>
         motor_apply s1 = [DigitalWrite p1 LOW, DigitalWrite p2 HIGH, DigitalWrite p3 LOW]))"
proof (intro conjI impI)
  assume "running s"
  then show "\<exists>l1 l2 l3. motor_apply s =
          [DigitalWrite (pin1 s) l1, DigitalWrite (pin2 s) l2, DigitalWrite (pin3 s) l3] \<and>
        (l1 = HIGH \<longleftrightarrow> phase1 s AND position s \<noteq> 0) \<and> (l1 = LOW \<longleftrightarrow> phase1 s AND position s = 0) \<and>
        (l2 = HIGH \<longleftrightarrow> phase2 s AND position s \<noteq> 0) \<and> (l2 = LOW \<longleftrightarrow> phase2 s AND position s = 0) \<and>
        (l3 = HIGH \<longleftrightarrow> phase3 s AND position s \<noteq> 0) \<and> (l3 = LOW \<longleftrightarrow> phase3 s AND position s = 0)"
    by (simp add: motor_apply_def)
next
  assume "motor_initialize p1 p2 p3 SEQUENCE_SIMPLE now0 = Inr (s0, tr0)"
  then have s0: "s0 = \<lparr>pin1 = p1, pin2 = p2, pin3 = p3, phase1 = 4, phase2 = 2, phase3 = 1,
           limit = 8, steps = 3, position = 1, running = True, speed_control = False,
           time_step = 40000, next_update = now0 + 40000\<rparr>"
    by (simp add: motor_initialize_simple)
  show "running s0" "phase1 s0 = 4" "phase2 s0 = 2" "phase3 s0 = 1" "position s0 = 1"
    by (simp_all add: s0)
  show "motor_apply s0 = [DigitalWrite p1 LOW, DigitalWrite p2 LOW, DigitalWrite p3 HIGH]"
    by (simp add: s0 motor_apply_def)
  show "\<exists>s1. motor_step now s0 =
              (True, s1, [DigitalWrite p1 LOW, DigitalWrite p2 HIGH, DigitalWrite p3 LOW]) \<and>
         position s1 = 2 \<and> running s1 \<and>
         motor_apply s1 = [DigitalWrite p1 LOW, DigitalWrite p2 HIGH, DigitalWrite p3 LOW]"
    by (simp add: s0 motor_step_def motor_should_update_def motor_apply_def)
qed

theorem motor_apply_phase_masks_witness:
  "running example_simple \<and>
   motor_initialize 2 3 4 SEQUENCE_SIMPLE 0 =
     Inr (example_simple, [PinMode 2 OUTPUT, PinMode 3 OUTPUT, PinMode 3 OUTPUT]) \<and>
   motor_apply example_simple = [DigitalWrite 2 LOW, DigitalWrite 3 LOW, DigitalWrite 4 HIGH] \<and>
   (\<exists>s1. motor_step 9 example_simple =
      (True, s1, [DigitalWrite 2 LOW, DigitalWrite 3 HIGH, DigitalWrite 4 LOW]) \<and>
      position s1 = 2)"
proof -
  have r: "running example_simple"
    by (simp add: example_simple_def)
  note t = motor_apply_phase_masks [of example_simple 2 3 4 0 example_simple
      "[PinMode 2 OUTPUT, PinMode 3 OUTPUT, PinMode 3 OUTPUT]" 9]
  from t initialize_example_simple r show ?thesis by blast
qed




section \<open>A full cycle\<close>

lemma motor_step_unpaced:
  assumes "seq_ok s" and "\<not> speed_control s" and "position s = 2 ^ k" and "k < unat (steps s)"
  shows "motor_step now s =
           (True, s\<lparr>position := 2 ^ (Suc k mod unat (steps s))\<rparr>,
            motor_apply (s\<lparr>position := 2 ^ (Suc k mod unat (steps s))\<rparr>))"
proof -
  from assms(1) consider
      (simple) "steps s = 3" "limit s = 8"
    | (overlap) "steps s = 6" "limit s = 64"
    unfolding seq_ok_cases by blast
  then show ?thesis
  proof cases
    case simple
    with assms(4) have "k \<in> {0, 1, 2}" by auto
    with simple assms(2,3) show ?thesis
      by (auto simp: motor_step_def motor_should_update_def Let_def)
  next
    case overlap
    with assms(4) have "k \<in> {0, 1, 2, 3, 4, 5}" by auto
    with overlap assms(2,3) show ?thesis
      by (auto simp: motor_step_def motor_should_update_def Let_def)
  qed
qed

lemma run_steps_unpaced:
  assumes "seq_ok s" and "\<not> speed_control s" and "position s = 2 ^ k" and "k < unat (steps s)"
  shows "\<exists>tr. run (map Step nows) s =
           Inr (replicate (length nows) (Some True),
                s\<lparr>position := 2 ^ ((k + length nows) mod unat (steps s))\<rparr>, tr)"
  using assms
proof (induction nows arbitrary: s k)
  case Nil
  then show ?case by (simp add: position_same)
next
  case (Cons now nows)
  let ?n = "unat (steps s)"
  let ?s1 = "s\<lparr>position := 2 ^ (Suc k mod ?n)\<rparr>"
  have st: "motor_step now s = (True, ?s1, motor_apply ?s1)"
    using Cons.prems by (rule motor_step_unpaced)
  have ok1: "seq_ok ?s1"
    using Cons.prems(1) st by (rule motor_step_seq_ok)
  have n0: "0 < ?n" using Cons.prems(4) by simp
  have "\<exists>tr. run (map Step nows) ?s1 =
           Inr (replicate (length nows) (Some True),
                ?s1\<lparr>position := 2 ^ ((Suc k mod ?n + length nows) mod unat (steps ?s1))\<rparr>, tr)"
    using ok1 Cons.prems(2) n0 by (intro Cons.IH) simp_all
  then obtain tr where
    "run (map Step nows) ?s1 =
       Inr (replicate (length nows) (Some True),
            s\<lparr>position := 2 ^ ((Suc k mod ?n + length nows) mod ?n)\<rparr>, tr)"
    by auto
  moreover have "(Suc k mod ?n + length nows) mod ?n = (k + length (now # nows)) mod ?n"
    by (simp add: mod_add_left_eq)
  ultimately show ?case
    using st by simp
qed


lemma exec_fixed:
  assumes "exec c s = Inr (r, s', tr)"
  shows "pin1 s' = pin1 s \<and> pin2 s' = pin2 s \<and> pin3 s' = pin3 s \<and>
         phase1 s' = phase1 s \<and> phase2 s' = phase2 s \<and> phase3 s' = phase3 s \<and>
         limit s' = limit s \<and> steps s' = steps s"
proof (cases c)
  case (Step now)
  with assms have "motor_step now s = (the r, s', tr)"
    by (auto split: prod.splits)
  then show ?thesis by (simp add: motor_step_effect)
next
  case (StepBackward now)
  with assms have "motor_step_backward now s = (the r, s', tr)"
    by (auto split: prod.splits)
  then show ?thesis by (simp add: motor_step_backward_effect)
next
  case (SetSpeedControl status)
  with assms show ?thesis by (auto simp: motor_set_speed_control_def)
next
  case (SetSpeed now speed)
  with assms have "motor_set_speed now s speed = Inr s'"
    by (auto split: sum.splits)
  then show ?thesis by (simp add: motor_set_speed_effect)
next
  case Apply
  with assms show ?thesis by simp
next
  case Release
  with assms show ?thesis by (auto simp: motor_release_def Let_def)
next
  case Resume
  with assms show ?thesis by (auto simp: motor_resume_def)
qed

lemma run_fixed:
  "run cs s = Inr (rs, s', tr) \<Longrightarrow>
     pin1 s' = pin1 s \<and> pin2 s' = pin2 s \<and> pin3 s' = pin3 s \<and>
     phase1 s' = phase1 s \<and> phase2 s' = phase2 s \<and> phase3 s' = phase3 s \<and>
     limit s' = limit s \<and> steps s' = steps s"
proof (induction cs arbitrary: s rs tr)
  case Nil
  then show ?case by simp
next
  case (Cons c cs)
  from Cons.prems obtain r s1 tr1 rs' tr2
    where c: "exec c s = Inr (r, s1, tr1)" and cs: "run cs s1 = Inr (rs', s', tr2)"
    by (auto split: sum.splits prod.splits)
  from exec_fixed [OF c] Cons.IH [OF cs] show ?case by simp
qed

text \<open>
  C4. On a sequence reachable from \<open>motor_initialize\<close> that has speed control off and
  is at position 1, \<open>steps\<close> consecutive calls of \<open>motor_step\<close> (3 for the Simple
  pattern, 6 for Overlap) all return true and bring the position back to 1, and no
  smaller positive number of calls does: after \<open>n\<close> calls, \<open>0 < n < steps\<close>, the
  position is not 1. The clock readings of the calls are arbitrary.
\<close>

theorem cycle_closure:
  assumes "motor_initialize p1 p2 p3 t now0 = Inr (s0, tr0)"
    and "run cs s0 = Inr (rs, s, tr)"
    and "\<not> speed_control s"
    and "position s = 1"
    and "length nows = unat (steps s)"
  shows "unat (steps s) = (case t of SEQUENCE_SIMPLE \<Rightarrow> 3 | SEQUENCE_OVERLAP \<Rightarrow> 6) \<and>
         (\<exists>s' tr'. run (map Step nows) s = Inr (replicate (unat (steps s)) (Some True), s', tr') \<and>
            position s' = 1) \<and>
         (\<forall>n. 0 < n \<and> n < unat (steps s) \<longrightarrow>
            (\<exists>s' tr'. run (map Step (take n nows)) s = Inr (replicate n (Some True), s', tr') \<and>
               position s' \<noteq> 1))"
proof -
  let ?n = "unat (steps s)"
  have "seq_ok s0"
    using assms(1) by (rule motor_initialize_seq_ok)
  then have ok: "seq_ok s"
    using assms(2) by (rule run_seq_ok)
  have "steps s0 = (case t of SEQUENCE_SIMPLE \<Rightarrow> 3 | SEQUENCE_OVERLAP \<Rightarrow> 6)"
    using assms(1) by (cases t) (auto simp: motor_initialize_simple motor_initialize_overlap)
  with run_fixed [OF assms(2)]
  have n: "?n = (case t of SEQUENCE_SIMPLE \<Rightarrow> 3 | SEQUENCE_OVERLAP \<Rightarrow> 6)"
    by (cases t) simp_all
  then have n0: "0 < ?n" and n8: "?n < 8"
    by (cases t; simp)+
  have p: "position s = 2 ^ 0"
    using assms(4) by simp
  have full: "\<exists>s' tr'. run (map Step nows) s = Inr (replicate ?n (Some True), s', tr') \<and>
            position s' = 1"
    using run_steps_unpaced [OF ok assms(3) p n0, of nows] assms(5) by auto
  have part: "\<forall>n. 0 < n \<and> n < ?n \<longrightarrow>
            (\<exists>s' tr'. run (map Step (take n nows)) s = Inr (replicate n (Some True), s', tr') \<and>
               position s' \<noteq> 1)"
  proof (intro allI impI)
    fix m
    assume m: "0 < m \<and> m < ?n"
    then have len: "length (take m nows) = m"
      using assms(5) by simp
    from m n8 have "bit (2 ^ m :: 8 word) m" "\<not> bit (1 :: 8 word) m"
      by (simp_all add: bit_exp_iff bit_1_iff)
    then have ne: "(2 ^ m :: 8 word) \<noteq> 1" by metis
    from run_steps_unpaced [OF ok assms(3) p n0, of "take m nows"] len m ne
    show "\<exists>s' tr'. run (map Step (take m nows)) s = Inr (replicate m (Some True), s', tr') \<and>
               position s' \<noteq> 1"
      by auto
  qed
  from n full part show ?thesis by blast
qed

theorem cycle_closure_witness:
  "motor_initialize 2 3 4 SEQUENCE_SIMPLE 0 =
     Inr (example_simple, [PinMode 2 OUTPUT, PinMode 3 OUTPUT, PinMode 3 OUTPUT]) \<and>
   run [] example_simple = Inr ([], example_simple, []) \<and>
   \<not> speed_control example_simple \<and> position example_simple = 1 \<and>
   length [5, 6, 7 :: 32 word] = unat (steps example_simple) \<and>
   run (map Step [5, 6, 7]) example_simple =
     Inr ([Some True, Some True, Some True], example_simple,
          [DigitalWrite 2 LOW, DigitalWrite 3 HIGH, DigitalWrite 4 LOW,
           DigitalWrite 2 HIGH, DigitalWrite 3 LOW, DigitalWrite 4 LOW,
           DigitalWrite 2 LOW, DigitalWrite 3 LOW, DigitalWrite 4 HIGH]) \<and>
   (\<exists>s' tr'. run (map Step (take 2 [5, 6, 7])) example_simple =
      Inr (replicate 2 (Some True), s', tr') \<and> position s' \<noteq> 1)"
proof -
  have r: "run [] example_simple = Inr ([], example_simple, [])"
    by simp
  have h: "\<not> speed_control example_simple" "position example_simple = 1"
    "length [5, 6, 7 :: 32 word] = unat (steps example_simple)"
    by (simp_all add: example_simple_def)
  have u: "unat (steps example_simple) = 3"
    by (simp add: example_simple_def)
  note t = cycle_closure [OF initialize_example_simple r h]
  have "(0 :: nat) < 2 \<and> 2 < unat (steps example_simple)"
    by (simp add: u)
  with t have "\<exists>s' tr'. run (map Step (take 2 [5, 6, 7])) example_simple =
      Inr (replicate 2 (Some True), s', tr') \<and> position s' \<noteq> 1"
    by blast
  moreover have "run (map Step [5, 6, 7]) example_simple =
     Inr ([Some True, Some True, Some True], example_simple,
          [DigitalWrite 2 LOW, DigitalWrite 3 HIGH, DigitalWrite 4 LOW,
           DigitalWrite 2 HIGH, DigitalWrite 3 LOW, DigitalWrite 4 LOW,
           DigitalWrite 2 LOW, DigitalWrite 3 LOW, DigitalWrite 4 HIGH])"
    by (simp add: motor_defs example_simple_def)
  ultimately show ?thesis
    using initialize_example_simple r h by blast
qed

section \<open>Release and resume\<close>

lemma motor_step_released:
  "motor_step now (s\<lparr>running := False\<rparr>) =
     (case motor_step now s of (b, s', tr) \<Rightarrow> (b, s'\<lparr>running := False\<rparr>, []))"
  by (simp add: motor_step_def motor_should_update_def motor_apply_def Let_def)

lemma motor_step_backward_released:
  "motor_step_backward now (s\<lparr>running := False\<rparr>) =
     (case motor_step_backward now s of (b, s', tr) \<Rightarrow> (b, s'\<lparr>running := False\<rparr>, []))"
  by (simp add: motor_step_backward_def motor_should_update_def motor_apply_def Let_def)

lemma exec_step_released:
  assumes "is_step c"
  shows "\<exists>b s' tr. exec c s = Inr (Some b, s', tr) \<and> running s' = running s \<and>
           exec c (s\<lparr>running := False\<rparr>) = Inr (Some b, s'\<lparr>running := False\<rparr>, [])"
proof (cases c)
  case (Step now)
  obtain b s' tr where m: "motor_step now s = (b, s', tr)"
    by (cases "motor_step now s") auto
  from motor_step_effect(9) [OF m] have "running s' = running s" .
  with m Step show ?thesis
    by (simp add: motor_step_released)
next
  case (StepBackward now)
  obtain b s' tr where m: "motor_step_backward now s = (b, s', tr)"
    by (cases "motor_step_backward now s") auto
  from motor_step_backward_effect(9) [OF m] have "running s' = running s" .
  with m StepBackward show ?thesis
    by (simp add: motor_step_backward_released)
qed (use assms in simp_all)

lemma run_steps_released:
  assumes "list_all is_step cs"
  shows "\<exists>rs s' tr. run cs s = Inr (rs, s', tr) \<and> running s' = running s \<and>
           run cs (s\<lparr>running := False\<rparr>) = Inr (rs, s'\<lparr>running := False\<rparr>, [])"
  using assms
proof (induction cs arbitrary: s)
  case Nil
  then show ?case by simp
next
  case (Cons c cs)
  then have c: "is_step c" and cs: "list_all is_step cs"
    by simp_all
  from exec_step_released [OF c, of s] obtain b s1 tr1
    where e: "exec c s = Inr (Some b, s1, tr1)" "running s1 = running s"
      "exec c (s\<lparr>running := False\<rparr>) = Inr (Some b, s1\<lparr>running := False\<rparr>, [])"
    by blast
  from Cons.IH [OF cs, of s1] obtain rs s' tr
    where r: "run cs s1 = Inr (rs, s', tr)" "running s' = running s1"
      "run cs (s1\<lparr>running := False\<rparr>) = Inr (rs, s'\<lparr>running := False\<rparr>, [])"
    by blast
  from e r show ?case by simp
qed


lemma motor_step_refused: "motor_step now s = (b, s', tr) \<Longrightarrow> \<not> b \<longrightarrow> s' = s"
  by (auto simp: motor_step_def motor_should_update_def Let_def split: if_splits)

lemma motor_step_backward_refused:
  "motor_step_backward now s = (b, s', tr) \<Longrightarrow> \<not> b \<longrightarrow> s' = s"
  by (auto simp: motor_step_backward_def motor_should_update_def Let_def split: if_splits)

lemma forward_index_simple:
  fixes p :: "8 word"
  assumes "k < 3" and "p = 2 ^ k"
  shows "(if push_bit 1 p = 8 then 1 else push_bit 1 p) = 2 ^ ((k + 1) mod 3) \<and>
         (if push_bit 1 p = 8 then 1 else push_bit 1 p) \<noteq> p"
proof -
  from assms(1) have "k \<in> {0, 1, 2}" by auto
  with assms(2) show ?thesis by auto
qed

lemma forward_index_overlap:
  fixes p :: "8 word"
  assumes "k < 6" and "p = 2 ^ k"
  shows "(if push_bit 1 p = 64 then 1 else push_bit 1 p) = 2 ^ ((k + 1) mod 6) \<and>
         (if push_bit 1 p = 64 then 1 else push_bit 1 p) \<noteq> p"
proof -
  from assms(1) have "k \<in> {0, 1, 2, 3, 4, 5}" by auto
  with assms(2) show ?thesis by auto
qed

lemma backward_index_simple:
  fixes p :: "8 word"
  assumes "k < 3" and "p = 2 ^ k"
  shows "(if drop_bit 1 p < 1 then drop_bit 1 8 else drop_bit 1 p) = 2 ^ ((k + 3 - 1) mod 3) \<and>
         (if drop_bit 1 p < 1 then drop_bit 1 8 else drop_bit 1 p) \<noteq> p"
proof -
  from assms(1) have "k \<in> {0, 1, 2}" by auto
  with assms(2) show ?thesis by auto
qed

lemma backward_index_overlap:
  fixes p :: "8 word"
  assumes "k < 6" and "p = 2 ^ k"
  shows "(if drop_bit 1 p < 1 then drop_bit 1 64 else drop_bit 1 p) = 2 ^ ((k + 6 - 1) mod 6) \<and>
         (if drop_bit 1 p < 1 then drop_bit 1 64 else drop_bit 1 p) \<noteq> p"
proof -
  from assms(1) have "k \<in> {0, 1, 2, 3, 4, 5}" by auto
  with assms(2) show ?thesis by auto
qed

lemma motor_step_performed:
  "motor_step now s = (True, s', tr) \<Longrightarrow>
     position s' = (if push_bit 1 (position s) = limit s then 1 else push_bit 1 (position s))"
  by (auto simp: motor_step_def motor_should_update_def Let_def split: if_splits)

lemma motor_step_backward_performed:
  "motor_step_backward now s = (True, s', tr) \<Longrightarrow>
     position s' =
       (if drop_bit 1 (position s) < 1 then drop_bit 1 (limit s) else drop_bit 1 (position s))"
  by (auto simp: motor_step_backward_def motor_should_update_def Let_def split: if_splits)

lemma motor_step_gate:
  "motor_step now s = (b, s', tr) \<Longrightarrow> b \<longleftrightarrow> (\<not> speed_control s \<or> next_update s \<le> now)"
  by (auto simp: motor_step_def motor_should_update_def Let_def split: if_splits)

lemma motor_step_backward_gate:
  "motor_step_backward now s = (b, s', tr) \<Longrightarrow>
     b \<longleftrightarrow> (\<not> speed_control s \<or> next_update s \<le> now)"
  by (auto simp: motor_step_backward_def motor_should_update_def Let_def split: if_splits)

lemma seq_ok_index:
  assumes "seq_ok x"
  shows "\<exists>k<unat (steps x). position x = 2 ^ k"
  using seq_ok_position [OF assms] by blast

lemma power_inj_8: "i < 8 \<Longrightarrow> j < 8 \<Longrightarrow> (2 ^ i :: 8 word) = 2 ^ j \<Longrightarrow> i = j"
proof -
  assume i: "i < 8" and "j < 8" and "(2 ^ i :: 8 word) = 2 ^ j"
  then have "bit (2 ^ j :: 8 word) i"
    using bit_exp_iff [of i i, where ?'a = "8 word"] by simp
  then show "i = j" by (simp add: bit_exp_iff)
qed


lemma motor_step_moves:
  assumes "seq_ok x"
  shows "\<exists>b x'. motor_step now x = (b, x', if b then motor_apply x' else []) \<and>
           (b \<longleftrightarrow> \<not> speed_control x \<or> next_update x \<le> now) \<and>
           (b \<longrightarrow> position x' \<noteq> position x \<and>
              (\<forall>k<unat (steps x). position x = 2 ^ k \<longrightarrow>
                 position x' = 2 ^ ((k + 1) mod unat (steps x)))) \<and>
           (\<not> b \<longrightarrow> x' = x)"
proof -
  obtain b x' tr where m: "motor_step now x = (b, x', tr)"
    by (cases "motor_step now x") auto
  note e = motor_step_effect [OF m]
  from seq_ok_index [OF assms] obtain k0
    where k0: "k0 < unat (steps x)" "position x = 2 ^ k0"
    by blast
  from assms consider
      (simple) "steps x = 3" "limit x = 8"
    | (overlap) "steps x = 6" "limit x = 64"
    unfolding seq_ok_cases by blast
  then have mv: "b \<longrightarrow> position x' = 2 ^ ((k0 + 1) mod unat (steps x)) \<and>
                   position x' \<noteq> position x"
  proof cases
    case simple
    then have u: "unat (steps x) = 3" by simp
    with k0 have "k0 < 3" by simp
    note F = forward_index_simple [OF this k0(2)]
    show ?thesis
    proof
      assume b
      with m have "motor_step now x = (True, x', tr)" by simp
      from motor_step_performed [OF this]
      have P: "position x' = (if push_bit 1 (position x) = 8 then 1 else push_bit 1 (position x))"
        unfolding simple(2) .
      show "position x' = 2 ^ ((k0 + 1) mod unat (steps x)) \<and> position x' \<noteq> position x"
        unfolding u P by (rule F)
    qed
  next
    case overlap
    then have u: "unat (steps x) = 6" by simp
    with k0 have "k0 < 6" by simp
    note F = forward_index_overlap [OF this k0(2)]
    show ?thesis
    proof
      assume b
      with m have "motor_step now x = (True, x', tr)" by simp
      from motor_step_performed [OF this]
      have P: "position x' = (if push_bit 1 (position x) = 64 then 1 else push_bit 1 (position x))"
        unfolding overlap(2) .
      show "position x' = 2 ^ ((k0 + 1) mod unat (steps x)) \<and> position x' \<noteq> position x"
        unfolding u P by (rule F)
    qed
  qed
  have n8: "unat (steps x) < 8"
    using assms unfolding seq_ok_cases by auto
  have idx: "b \<longrightarrow> (\<forall>k<unat (steps x). position x = 2 ^ k \<longrightarrow>
                 position x' = 2 ^ ((k + 1) mod unat (steps x)))"
  proof (intro impI allI)
    fix k
    assume b and "k < unat (steps x)" and "position x = 2 ^ k"
    with k0 n8 have "k = k0"
      by (intro power_inj_8) simp_all
    with mv \<open>b\<close> show "position x' = 2 ^ ((k + 1) mod unat (steps x))"
      by simp
  qed
  have "motor_step now x = (b, x', if b then motor_apply x' else [])"
    using m e(13) by simp
  moreover note motor_step_gate [OF m] motor_step_refused [OF m]
  ultimately show ?thesis
    using mv idx by blast
qed

lemma motor_step_backward_moves:
  assumes "seq_ok x"
  shows "\<exists>b x'. motor_step_backward now x = (b, x', if b then motor_apply x' else []) \<and>
           (b \<longleftrightarrow> \<not> speed_control x \<or> next_update x \<le> now) \<and>
           (b \<longrightarrow> position x' \<noteq> position x \<and>
              (\<forall>k<unat (steps x). position x = 2 ^ k \<longrightarrow>
                 position x' = 2 ^ ((k + unat (steps x) - 1) mod unat (steps x)))) \<and>
           (\<not> b \<longrightarrow> x' = x)"
proof -
  obtain b x' tr where m: "motor_step_backward now x = (b, x', tr)"
    by (cases "motor_step_backward now x") auto
  note e = motor_step_backward_effect [OF m]
  from seq_ok_index [OF assms] obtain k0
    where k0: "k0 < unat (steps x)" "position x = 2 ^ k0"
    by blast
  from assms consider
      (simple) "steps x = 3" "limit x = 8"
    | (overlap) "steps x = 6" "limit x = 64"
    unfolding seq_ok_cases by blast
  then have mv: "b \<longrightarrow> position x' = 2 ^ ((k0 + unat (steps x) - 1) mod unat (steps x)) \<and>
                   position x' \<noteq> position x"
  proof cases
    case simple
    then have u: "unat (steps x) = 3" by simp
    with k0 have "k0 < 3" by simp
    note F = backward_index_simple [OF this k0(2)]
    show ?thesis
    proof
      assume b
      with m have "motor_step_backward now x = (True, x', tr)" by simp
      from motor_step_backward_performed [OF this]
      have P: "position x' =
          (if drop_bit 1 (position x) < 1 then drop_bit 1 8 else drop_bit 1 (position x))"
        unfolding simple(2) .
      show "position x' = 2 ^ ((k0 + unat (steps x) - 1) mod unat (steps x)) \<and>
          position x' \<noteq> position x"
        unfolding u P by (rule F)
    qed
  next
    case overlap
    then have u: "unat (steps x) = 6" by simp
    with k0 have "k0 < 6" by simp
    note F = backward_index_overlap [OF this k0(2)]
    show ?thesis
    proof
      assume b
      with m have "motor_step_backward now x = (True, x', tr)" by simp
      from motor_step_backward_performed [OF this]
      have P: "position x' =
          (if drop_bit 1 (position x) < 1 then drop_bit 1 64 else drop_bit 1 (position x))"
        unfolding overlap(2) .
      show "position x' = 2 ^ ((k0 + unat (steps x) - 1) mod unat (steps x)) \<and>
          position x' \<noteq> position x"
        unfolding u P by (rule F)
    qed
  qed
  have n8: "unat (steps x) < 8"
    using assms unfolding seq_ok_cases by auto
  have idx: "b \<longrightarrow> (\<forall>k<unat (steps x). position x = 2 ^ k \<longrightarrow>
                 position x' = 2 ^ ((k + unat (steps x) - 1) mod unat (steps x)))"
  proof (intro impI allI)
    fix k
    assume b and "k < unat (steps x)" and "position x = 2 ^ k"
    with k0 n8 have "k = k0"
      by (intro power_inj_8) simp_all
    with mv \<open>b\<close> show "position x' = 2 ^ ((k + unat (steps x) - 1) mod unat (steps x))"
      by simp
  qed
  have "motor_step_backward now x = (b, x', if b then motor_apply x' else [])"
    using m e(13) by simp
  moreover note motor_step_backward_gate [OF m] motor_step_backward_refused [OF m]
  ultimately show ?thesis
    using mv idx by blast
qed

lemma exec_released:
  assumes "c \<noteq> Resume" and "\<not> running x" and "exec c x = Inr (r, x', tr)"
  shows "\<not> running x' \<and> (\<forall>p. DigitalWrite p HIGH \<notin> set tr)"
proof (cases c)
  case (Step now)
  with assms(3) have m: "motor_step now x = (the r, x', tr)"
    by (auto split: prod.splits)
  from motor_step_effect(9,13) [OF m] assms(2) show ?thesis
    by (simp add: motor_apply_def)
next
  case (StepBackward now)
  with assms(3) have m: "motor_step_backward now x = (the r, x', tr)"
    by (auto split: prod.splits)
  from motor_step_backward_effect(9,13) [OF m] assms(2) show ?thesis
    by (simp add: motor_apply_def)
next
  case (SetSpeedControl status)
  with assms show ?thesis by (auto simp: motor_set_speed_control_def)
next
  case (SetSpeed now speed)
  with assms(3) have m: "motor_set_speed now x speed = Inr x'" and "tr = []"
    by (auto split: sum.splits)
  with motor_set_speed_effect(10) [OF m] assms(2) show ?thesis by simp
next
  case Apply
  with assms show ?thesis by (auto simp: motor_apply_def)
next
  case Release
  with assms show ?thesis by (auto simp: motor_release_def Let_def)
next
  case Resume
  with assms(1) show ?thesis by simp
qed

lemma run_released:
  assumes "Resume \<notin> set cs" and "\<not> running x" and "run cs x = Inr (rs, x', tr)"
  shows "\<not> running x' \<and> (\<forall>p. DigitalWrite p HIGH \<notin> set tr)"
  using assms
proof (induction cs arbitrary: x rs tr)
  case Nil
  then show ?case by simp
next
  case (Cons c cs)
  from Cons.prems(3) obtain r x1 tr1 rs' tr2
    where c: "exec c x = Inr (r, x1, tr1)" and cs: "run cs x1 = Inr (rs', x', tr2)"
      and tr: "tr = tr1 @ tr2"
    by (auto split: sum.splits prod.splits)
  from Cons.prems(1) have ne: "c \<noteq> Resume" and rest: "Resume \<notin> set cs"
    by auto
  from exec_released [OF ne Cons.prems(2) c]
  have 1: "\<not> running x1" "\<forall>p. DigitalWrite p HIGH \<notin> set tr1"
    by simp_all
  from Cons.IH [OF rest 1(1) cs] 1(2) tr show ?case
    by simp
qed


lemma released_step:
  assumes "seq_ok x" and "\<not> running x"
  shows "\<exists>b x'. motor_step now x = (b, x', []) \<and>
           (b \<longleftrightarrow> \<not> speed_control x \<or> next_update x \<le> now) \<and>
           (b \<longrightarrow> position x' \<noteq> position x \<and>
              (\<forall>k<unat (steps x). position x = 2 ^ k \<longrightarrow> position x' = 2 ^ ((k + 1) mod unat (steps x)))) \<and>
           (\<not> b \<longrightarrow> x' = x)"
proof -
  from motor_step_moves [OF assms(1), of now] obtain b x'
    where m: "motor_step now x = (b, x', if b then motor_apply x' else [])"
      and r: "(b \<longleftrightarrow> \<not> speed_control x \<or> next_update x \<le> now) \<and>
           (b \<longrightarrow> position x' \<noteq> position x \<and>
              (\<forall>k<unat (steps x). position x = 2 ^ k \<longrightarrow> position x' = 2 ^ ((k + 1) mod unat (steps x)))) \<and>
           (\<not> b \<longrightarrow> x' = x)"
    by blast
  from motor_step_effect(9) [OF m] assms(2) have "\<not> running x'" by simp
  then have "motor_step now x = (b, x', [])"
    using m by (simp add: motor_apply_def)
  with r show ?thesis by blast
qed

lemma released_step_backward:
  assumes "seq_ok x" and "\<not> running x"
  shows "\<exists>b x'. motor_step_backward now x = (b, x', []) \<and>
           (b \<longleftrightarrow> \<not> speed_control x \<or> next_update x \<le> now) \<and>
           (b \<longrightarrow> position x' \<noteq> position x \<and>
              (\<forall>k<unat (steps x). position x = 2 ^ k \<longrightarrow> position x' = 2 ^ ((k + unat (steps x) - 1) mod unat (steps x)))) \<and>
           (\<not> b \<longrightarrow> x' = x)"
proof -
  from motor_step_backward_moves [OF assms(1), of now] obtain b x'
    where m: "motor_step_backward now x = (b, x', if b then motor_apply x' else [])"
      and r: "(b \<longleftrightarrow> \<not> speed_control x \<or> next_update x \<le> now) \<and>
           (b \<longrightarrow> position x' \<noteq> position x \<and>
              (\<forall>k<unat (steps x). position x = 2 ^ k \<longrightarrow> position x' = 2 ^ ((k + unat (steps x) - 1) mod unat (steps x)))) \<and>
           (\<not> b \<longrightarrow> x' = x)"
    by blast
  from motor_step_backward_effect(9) [OF m] assms(2) have "\<not> running x'" by simp
  then have "motor_step_backward now x = (b, x', [])"
    using m by (simp add: motor_apply_def)
  with r show ?thesis by blast
qed

lemma running_step:
  assumes "seq_ok x" and "running x"
  shows "\<exists>b x'. motor_step now x =
             (b, x',
              (if b then
                [DigitalWrite (pin1 x) (if phase1 x AND position x' \<noteq> 0 then HIGH else LOW),
                 DigitalWrite (pin2 x) (if phase2 x AND position x' \<noteq> 0 then HIGH else LOW),
                 DigitalWrite (pin3 x) (if phase3 x AND position x' \<noteq> 0 then HIGH else LOW)]
              else [])) \<and>
           (b \<longleftrightarrow> \<not> speed_control x \<or> next_update x \<le> now) \<and>
           (b \<longrightarrow> position x' \<noteq> position x \<and>
              (\<forall>k<unat (steps x). position x = 2 ^ k \<longrightarrow> position x' = 2 ^ ((k + 1) mod unat (steps x)))) \<and>
           (\<not> b \<longrightarrow> x' = x)"
proof -
  from motor_step_moves [OF assms(1), of now] obtain b x'
    where m: "motor_step now x = (b, x', if b then motor_apply x' else [])"
      and r: "(b \<longleftrightarrow> \<not> speed_control x \<or> next_update x \<le> now) \<and>
           (b \<longrightarrow> position x' \<noteq> position x \<and>
              (\<forall>k<unat (steps x). position x = 2 ^ k \<longrightarrow> position x' = 2 ^ ((k + 1) mod unat (steps x)))) \<and>
           (\<not> b \<longrightarrow> x' = x)"
    by blast
  note e = motor_step_effect [OF m]
  have "(if b then motor_apply x' else []) =
          (if b then
                [DigitalWrite (pin1 x) (if phase1 x AND position x' \<noteq> 0 then HIGH else LOW),
                 DigitalWrite (pin2 x) (if phase2 x AND position x' \<noteq> 0 then HIGH else LOW),
                 DigitalWrite (pin3 x) (if phase3 x AND position x' \<noteq> 0 then HIGH else LOW)]
              else [])"
    using e(1-6) e(9) assms(2) by (simp add: motor_apply_def)
  with m have "motor_step now x =
             (b, x',
              (if b then
                [DigitalWrite (pin1 x) (if phase1 x AND position x' \<noteq> 0 then HIGH else LOW),
                 DigitalWrite (pin2 x) (if phase2 x AND position x' \<noteq> 0 then HIGH else LOW),
                 DigitalWrite (pin3 x) (if phase3 x AND position x' \<noteq> 0 then HIGH else LOW)]
              else []))"
    by simp
  with r show ?thesis by blast
qed

lemma running_step_backward:
  assumes "seq_ok x" and "running x"
  shows "\<exists>b x'. motor_step_backward now x =
             (b, x',
              (if b then
                [DigitalWrite (pin1 x) (if phase1 x AND position x' \<noteq> 0 then HIGH else LOW),
                 DigitalWrite (pin2 x) (if phase2 x AND position x' \<noteq> 0 then HIGH else LOW),
                 DigitalWrite (pin3 x) (if phase3 x AND position x' \<noteq> 0 then HIGH else LOW)]
              else [])) \<and>
           (b \<longleftrightarrow> \<not> speed_control x \<or> next_update x \<le> now) \<and>
           (b \<longrightarrow> position x' \<noteq> position x \<and>
              (\<forall>k<unat (steps x). position x = 2 ^ k \<longrightarrow> position x' = 2 ^ ((k + unat (steps x) - 1) mod unat (steps x)))) \<and>
           (\<not> b \<longrightarrow> x' = x)"
proof -
  from motor_step_backward_moves [OF assms(1), of now] obtain b x'
    where m: "motor_step_backward now x = (b, x', if b then motor_apply x' else [])"
      and r: "(b \<longleftrightarrow> \<not> speed_control x \<or> next_update x \<le> now) \<and>
           (b \<longrightarrow> position x' \<noteq> position x \<and>
              (\<forall>k<unat (steps x). position x = 2 ^ k \<longrightarrow> position x' = 2 ^ ((k + unat (steps x) - 1) mod unat (steps x)))) \<and>
           (\<not> b \<longrightarrow> x' = x)"
    by blast
  note e = motor_step_backward_effect [OF m]
  have "(if b then motor_apply x' else []) =
          (if b then
                [DigitalWrite (pin1 x) (if phase1 x AND position x' \<noteq> 0 then HIGH else LOW),
                 DigitalWrite (pin2 x) (if phase2 x AND position x' \<noteq> 0 then HIGH else LOW),
                 DigitalWrite (pin3 x) (if phase3 x AND position x' \<noteq> 0 then HIGH else LOW)]
              else [])"
    using e(1-6) e(9) assms(2) by (simp add: motor_apply_def)
  with m have "motor_step_backward now x =
             (b, x',
              (if b then
                [DigitalWrite (pin1 x) (if phase1 x AND position x' \<noteq> 0 then HIGH else LOW),
                 DigitalWrite (pin2 x) (if phase2 x AND position x' \<noteq> 0 then HIGH else LOW),
                 DigitalWrite (pin3 x) (if phase3 x AND position x' \<noteq> 0 then HIGH else LOW)]
              else []))"
    by simp
  with r show ?thesis by blast
qed

text \<open>
  C9 (as stated, refuted). With speed control on and the pacing gate closed, the step
  calls made after \<open>motor_release\<close> return false and leave the position where it was,
  and the step call made after \<open>motor_resume\<close> returns false as well and writes no
  pin: of the whole run only the three LOW writes of \<open>motor_release\<close> reach the pins
  and the position is still 1.
\<close>

theorem release_until_resume_counterexample:
  "motor_initialize 2 3 4 SEQUENCE_SIMPLE 0 =
     Inr (example_simple, [PinMode 2 OUTPUT, PinMode 3 OUTPUT, PinMode 3 OUTPUT]) \<and>
   run [SetSpeedControl True, Release, Step 0, StepBackward 0, Resume, Step 0] example_simple =
     Inr ([None, None, Some False, Some False, None, Some False],
          example_simple\<lparr>speed_control := True\<rparr>,
          [DigitalWrite 2 LOW, DigitalWrite 3 LOW, DigitalWrite 4 LOW]) \<and>
   position (example_simple\<lparr>speed_control := True\<rparr>) = position example_simple"
  using initialize_example_simple by (simp add: motor_defs example_simple_def)

text \<open>
  C9 (amended). Let \<open>s\<close> be reachable from \<open>motor_initialize\<close>. \<open>motor_release\<close>
  clears \<open>running\<close> and writes LOW to the three pins at once. Whatever calls other
  than \<open>motor_resume\<close> follow, \<open>running\<close> stays false and no pin is written HIGH;
  step calls alone never fail, write nothing at all, and return the same values and
  reach the same sequence, \<open>running\<close> apart, as without the release. In the sequence
  \<open>x\<close> reached, the next \<open>motor_step\<close> or \<open>motor_step_backward\<close> returns true
  exactly when the pacing gate is open (speed control off, or the clock reading at
  least \<open>next_update\<close>); then the position changes, from \<open>2 ^ k\<close> to
  \<open>2 ^ ((k + 1) mod steps)\<close> forward and to \<open>2 ^ ((k + steps - 1) mod steps)\<close>
  backward, and still nothing is written; a call the gate refuses changes nothing.
  \<open>motor_resume\<close> writes nothing and keeps the position. The step call after it
  moves the position in the same way when the gate is open and then writes pin1, pin2
  and pin3 according to the phase masks at the new position; when the gate refuses it,
  it writes nothing and changes nothing.
\<close>

theorem release_until_resume:
  assumes "motor_initialize p1 p2 p3 t now0 = Inr (s0, tr0)"
    and "run cs0 s0 = Inr (rs0, s, tr1)"
    and "Resume \<notin> set cs"
    and "run cs (s\<lparr>running := False\<rparr>) = Inr (rs, x, tr)"
  shows "(motor_release s =
       (s\<lparr>running := False\<rparr>,
        [DigitalWrite (pin1 s) LOW, DigitalWrite (pin2 s) LOW, DigitalWrite (pin3 s) LOW])) \<and>
     (\<not> running x \<and> (\<forall>p. DigitalWrite p HIGH \<notin> set tr)) \<and>
     (list_all is_step cs \<longrightarrow>
        tr = [] \<and> (\<exists>tr'. run cs s = Inr (rs, x\<lparr>running := running s\<rparr>, tr'))) \<and>
     (\<forall>cs'. list_all is_step cs' \<longrightarrow>
        (\<exists>rs' x'. run cs' (s\<lparr>running := False\<rparr>) = Inr (rs', x', []))) \<and>
     (\<forall>now. \<exists>b x'. motor_step now x = (b, x', []) \<and>
           (b \<longleftrightarrow> \<not> speed_control x \<or> next_update x \<le> now) \<and>
           (b \<longrightarrow> position x' \<noteq> position x \<and>
              (\<forall>k<unat (steps x). position x = 2 ^ k \<longrightarrow> position x' = 2 ^ ((k + 1) mod unat (steps x)))) \<and>
           (\<not> b \<longrightarrow> x' = x)) \<and>
     (\<forall>now. \<exists>b x'. motor_step_backward now x = (b, x', []) \<and>
           (b \<longleftrightarrow> \<not> speed_control x \<or> next_update x \<le> now) \<and>
           (b \<longrightarrow> position x' \<noteq> position x \<and>
              (\<forall>k<unat (steps x). position x = 2 ^ k \<longrightarrow> position x' = 2 ^ ((k + unat (steps x) - 1) mod unat (steps x)))) \<and>
           (\<not> b \<longrightarrow> x' = x)) \<and>
     (exec Resume x = Inr (None, motor_resume x, []) \<and> running (motor_resume x) \<and>
     position (motor_resume x) = position x) \<and>
     (\<forall>now. \<exists>b x'. motor_step now (motor_resume x) =
             (b, x',
              (if b then
                [DigitalWrite (pin1 s) (if phase1 s AND position x' \<noteq> 0 then HIGH else LOW),
                 DigitalWrite (pin2 s) (if phase2 s AND position x' \<noteq> 0 then HIGH else LOW),
                 DigitalWrite (pin3 s) (if phase3 s AND position x' \<noteq> 0 then HIGH else LOW)]
              else [])) \<and>
           (b \<longleftrightarrow> \<not> speed_control (motor_resume x) \<or> next_update (motor_resume x) \<le> now) \<and>
           (b \<longrightarrow> position x' \<noteq> position (motor_resume x) \<and>
              (\<forall>k<unat (steps (motor_resume x)). position (motor_resume x) = 2 ^ k \<longrightarrow> position x' = 2 ^ ((k + 1) mod unat (steps (motor_resume x))))) \<and>
           (\<not> b \<longrightarrow> x' = motor_resume x)) \<and>
     (\<forall>now. \<exists>b x'. motor_step_backward now (motor_resume x) =
             (b, x',
              (if b then
                [DigitalWrite (pin1 s) (if phase1 s AND position x' \<noteq> 0 then HIGH else LOW),
                 DigitalWrite (pin2 s) (if phase2 s AND position x' \<noteq> 0 then HIGH else LOW),
                 DigitalWrite (pin3 s) (if phase3 s AND position x' \<noteq> 0 then HIGH else LOW)]
              else [])) \<and>
           (b \<longleftrightarrow> \<not> speed_control (motor_resume x) \<or> next_update (motor_resume x) \<le> now) \<and>
           (b \<longrightarrow> position x' \<noteq> position (motor_resume x) \<and>
              (\<forall>k<unat (steps (motor_resume x)). position (motor_resume x) = 2 ^ k \<longrightarrow> position x' = 2 ^ ((k + unat (steps (motor_resume x)) - 1) mod unat (steps (motor_resume x))))) \<and>
           (\<not> b \<longrightarrow> x' = motor_resume x))"
proof -
  have "seq_ok s0"
    using assms(1) by (rule motor_initialize_seq_ok)
  then have "seq_ok s"
    using assms(2) by (rule run_seq_ok)
  then have "seq_ok (s\<lparr>running := False\<rparr>)"
    using seq_ok_cong [of "s\<lparr>running := False\<rparr>" s] by simp
  then have ok: "seq_ok x"
    using assms(4) by (rule run_seq_ok)
  then have ok': "seq_ok (motor_resume x)"
    using seq_ok_cong [of "motor_resume x" x] by (simp add: motor_resume_def)
  have a: "motor_release s =
       (s\<lparr>running := False\<rparr>,
        [DigitalWrite (pin1 s) LOW, DigitalWrite (pin2 s) LOW, DigitalWrite (pin3 s) LOW])"
    by (simp add: motor_release_def)
  have b: "\<not> running x \<and> (\<forall>p. DigitalWrite p HIGH \<notin> set tr)"
    using assms(3) _ assms(4) by (rule run_released) simp
  have c: "list_all is_step cs \<longrightarrow>
        tr = [] \<and> (\<exists>tr'. run cs s = Inr (rs, x\<lparr>running := running s\<rparr>, tr'))"
  proof
    assume "list_all is_step cs"
    from run_steps_released [OF this, of s] obtain rs' s' tr'
      where r: "run cs s = Inr (rs', s', tr')" "running s' = running s"
        "run cs (s\<lparr>running := False\<rparr>) = Inr (rs', s'\<lparr>running := False\<rparr>, [])"
      by blast
    from r(3) assms(4) have eq: "rs = rs'" "x = s'\<lparr>running := False\<rparr>" "tr = []"
      by simp_all
    have "x\<lparr>running := running s\<rparr> = s'"
      unfolding eq(2) using r(2) by (cases s') simp
    with r(1) eq show "tr = [] \<and> (\<exists>tr'. run cs s = Inr (rs, x\<lparr>running := running s\<rparr>, tr'))"
      by simp
  qed
  have d: "\<forall>cs'. list_all is_step cs' \<longrightarrow>
        (\<exists>rs' x'. run cs' (s\<lparr>running := False\<rparr>) = Inr (rs', x', []))"
    using run_steps_released [of _ s] by blast
  have e1: "\<forall>now. \<exists>b x'. motor_step now x = (b, x', []) \<and>
           (b \<longleftrightarrow> \<not> speed_control x \<or> next_update x \<le> now) \<and>
           (b \<longrightarrow> position x' \<noteq> position x \<and>
              (\<forall>k<unat (steps x). position x = 2 ^ k \<longrightarrow> position x' = 2 ^ ((k + 1) mod unat (steps x)))) \<and>
           (\<not> b \<longrightarrow> x' = x)"
    using released_step [OF ok conjunct1 [OF b]] by (rule allI)
  have e2: "\<forall>now. \<exists>b x'. motor_step_backward now x = (b, x', []) \<and>
           (b \<longleftrightarrow> \<not> speed_control x \<or> next_update x \<le> now) \<and>
           (b \<longrightarrow> position x' \<noteq> position x \<and>
              (\<forall>k<unat (steps x). position x = 2 ^ k \<longrightarrow> position x' = 2 ^ ((k + unat (steps x) - 1) mod unat (steps x)))) \<and>
           (\<not> b \<longrightarrow> x' = x)"
    using released_step_backward [OF ok conjunct1 [OF b]] by (rule allI)
  have f: "exec Resume x = Inr (None, motor_resume x, []) \<and> running (motor_resume x) \<and>
     position (motor_resume x) = position x"
    by (simp add: motor_resume_def)
  have pins: "pin1 (motor_resume x) = pin1 s" "pin2 (motor_resume x) = pin2 s"
    "pin3 (motor_resume x) = pin3 s" "phase1 (motor_resume x) = phase1 s"
    "phase2 (motor_resume x) = phase2 s" "phase3 (motor_resume x) = phase3 s"
    using run_fixed [OF assms(4)] by (simp_all add: motor_resume_def)
  have run': "running (motor_resume x)"
    by (simp add: motor_resume_def)
  have g1: "\<forall>now. \<exists>b x'. motor_step now (motor_resume x) =
             (b, x',
              (if b then
                [DigitalWrite (pin1 s) (if phase1 s AND position x' \<noteq> 0 then HIGH else LOW),
                 DigitalWrite (pin2 s) (if phase2 s AND position x' \<noteq> 0 then HIGH else LOW),
                 DigitalWrite (pin3 s) (if phase3 s AND position x' \<noteq> 0 then HIGH else LOW)]
              else [])) \<and>
           (b \<longleftrightarrow> \<not> speed_control (motor_resume x) \<or> next_update (motor_resume x) \<le> now) \<and>
           (b \<longrightarrow> position x' \<noteq> position (motor_resume x) \<and>
              (\<forall>k<unat (steps (motor_resume x)). position (motor_resume x) = 2 ^ k \<longrightarrow> position x' = 2 ^ ((k + 1) mod unat (steps (motor_resume x))))) \<and>
           (\<not> b \<longrightarrow> x' = motor_resume x)"
    using running_step [OF ok' run'] unfolding pins by (rule allI)
  have g2: "\<forall>now. \<exists>b x'. motor_step_backward now (motor_resume x) =
             (b, x',
              (if b then
                [DigitalWrite (pin1 s) (if phase1 s AND position x' \<noteq> 0 then HIGH else LOW),
                 DigitalWrite (pin2 s) (if phase2 s AND position x' \<noteq> 0 then HIGH else LOW),
                 DigitalWrite (pin3 s) (if phase3 s AND position x' \<noteq> 0 then HIGH else LOW)]
              else [])) \<and>
           (b \<longleftrightarrow> \<not> speed_control (motor_resume x) \<or> next_update (motor_resume x) \<le> now) \<and>
           (b \<longrightarrow> position x' \<noteq> position (motor_resume x) \<and>
              (\<forall>k<unat (steps (motor_resume x)). position (motor_resume x) = 2 ^ k \<longrightarrow> position x' = 2 ^ ((k + unat (steps (motor_resume x)) - 1) mod unat (steps (motor_resume x))))) \<and>
           (\<not> b \<longrightarrow> x' = motor_resume x)"
    using running_step_backward [OF ok' run'] unfolding pins by (rule allI)
  from b have b1: "\<not> running x" and b2: "\<forall>p. DigitalWrite p HIGH \<notin> set tr"
    by simp_all
  from f have f1: "exec Resume x = Inr (None, motor_resume x, [])"
    and f2: "running (motor_resume x)" and f3: "position (motor_resume x) = position x"
    by simp_all
  from a b1 b2 c d e1 e2 f1 f2 f3 g1 g2 show ?thesis
    by (intro conjI)
qed

theorem release_until_resume_witness:
  "motor_initialize 2 3 4 SEQUENCE_SIMPLE 0 =
     Inr (example_simple, [PinMode 2 OUTPUT, PinMode 3 OUTPUT, PinMode 3 OUTPUT]) \<and>
   run [] example_simple = Inr ([], example_simple, []) \<and>
   Resume \<notin> set [Step 0, Apply, Step 0] \<and>
   run [Step 0, Apply, Step 0] (example_simple\<lparr>running := False\<rparr>) =
     Inr ([Some True, None, Some True], example_simple\<lparr>position := 4, running := False\<rparr>, []) \<and>
   motor_release example_simple =
     (example_simple\<lparr>running := False\<rparr>,
      [DigitalWrite 2 LOW, DigitalWrite 3 LOW, DigitalWrite 4 LOW]) \<and>
   \<not> running (example_simple\<lparr>position := 4, running := False\<rparr>) \<and>
   motor_step 7 (example_simple\<lparr>position := 4, running := False\<rparr>) =
     (True, example_simple\<lparr>position := 1, running := False\<rparr>, []) \<and>
   exec Resume (example_simple\<lparr>position := 4, running := False\<rparr>) = Inr (None, example_simple\<lparr>position := 4\<rparr>, []) \<and>
   motor_step_backward 7 (example_simple\<lparr>position := 4\<rparr>) =
     (True, example_simple\<lparr>position := 2\<rparr>,
      [DigitalWrite 2 LOW, DigitalWrite 3 HIGH, DigitalWrite 4 LOW])"
proof -
  have r0: "run [] example_simple = Inr ([], example_simple, [])"
    by simp
  have nr: "Resume \<notin> set [Step 0, Apply, Step 0]"
    by simp
  have r: "run [Step 0, Apply, Step 0] (example_simple\<lparr>running := False\<rparr>) =
     Inr ([Some True, None, Some True], example_simple\<lparr>position := 4, running := False\<rparr>, [])"
    by (simp add: motor_defs example_simple_def)
  note t = release_until_resume [OF initialize_example_simple r0 nr r]
  from t have rel: "motor_release example_simple =
     (example_simple\<lparr>running := False\<rparr>,
      [DigitalWrite (pin1 example_simple) LOW, DigitalWrite (pin2 example_simple) LOW,
       DigitalWrite (pin3 example_simple) LOW])"
    and off: "\<not> running (example_simple\<lparr>position := 4, running := False\<rparr>)"
    and res: "exec Resume (example_simple\<lparr>position := 4, running := False\<rparr>) = Inr (None, motor_resume (example_simple\<lparr>position := 4, running := False\<rparr>), [])"
    by blast+
  have rel': "motor_release example_simple =
     (example_simple\<lparr>running := False\<rparr>,
      [DigitalWrite 2 LOW, DigitalWrite 3 LOW, DigitalWrite 4 LOW])"
    using rel by (simp add: example_simple_def)
  have m: "motor_resume (example_simple\<lparr>position := 4, running := False\<rparr>) = example_simple\<lparr>position := 4\<rparr>"
    by (simp add: motor_resume_def example_simple_def)
  have st: "motor_step 7 (example_simple\<lparr>position := 4, running := False\<rparr>) =
     (True, example_simple\<lparr>position := 1, running := False\<rparr>, [])"
    by (simp add: motor_defs example_simple_def)
  have sb: "motor_step_backward 7 (example_simple\<lparr>position := 4\<rparr>) =
     (True, example_simple\<lparr>position := 2\<rparr>,
      [DigitalWrite 2 LOW, DigitalWrite 3 HIGH, DigitalWrite 4 LOW])"
    by (simp add: motor_defs example_simple_def)
  from initialize_example_simple r0 nr r rel' off st res [unfolded m] sb
  show ?thesis by (intro conjI)
qed

end
